theory Spec2Isabelle
  imports Complex_Main "HOL-Library.Multiset"
begin

section \<open>The statistics module: data model\<close>

text \<open>
  The module \<^verbatim>\<open>statistics.py\<close> is a handful of pure functions over a finite
  collection. A collection is modelled as a list (every function that needs two passes
  first turns a one-shot iterator into a list). Numeric data is modelled as
  \<^typ>\<open>rat\<close>, the values of Python's \<^verbatim>\<open>fractions.Fraction\<close>, whose \<^verbatim>\<open>+\<close>,
  \<^verbatim>\<open>-\<close>, \<^verbatim>\<open>**2\<close>, \<^verbatim>\<open>/\<close> and comparisons are exact. Binary floating point is
  outside the model; the rounding arithmetic of \<^verbatim>\<open>Decimal\<close> is modelled for
  \<^verbatim>\<open>mean\<close>, in a section of its own. The frequency functions only compare values
  for equality and are polymorphic.

  Exceptions are values: \<^verbatim>\<open>StatisticsError\<close> carries its message, and the
  exceptions that the operations used by the code could raise are kept as branches of
  the model: \<^verbatim>\<open>IndexError\<close> (subscription), \<^verbatim>\<open>ZeroDivisionError\<close> (division),
  \<^verbatim>\<open>ValueError\<close> (\<^verbatim>\<open>math.sqrt\<close> of a negative number) and \<^verbatim>\<open>decimal.Overflow\<close>
  (a \<^verbatim>\<open>Decimal\<close> result beyond the largest exponent).
\<close>

datatype exn = StatisticsError string | IndexError | ZeroDivisionError | ValueError | Overflow

text \<open>
  Subscription \<^verbatim>\<open>xs[i]\<close> of a Python list of length \<open>n\<close>: the indices
  \<open>0 .. n - 1\<close> read from the front, \<open>-n .. -1\<close> from the back, and every other
  index raises \<^verbatim>\<open>IndexError\<close>.
\<close>

definition getitem :: "'a list \<Rightarrow> int \<Rightarrow> exn + 'a" where
  "getitem xs i =
     (if 0 \<le> i \<and> i < int (length xs) then Inr (xs ! nat i)
      else if i < 0 \<and> - int (length xs) \<le> i then Inr (xs ! nat (int (length xs) + i))
      else Inl IndexError)"

text \<open>\<^verbatim>\<open>a / b\<close> of a \<^verbatim>\<open>Fraction\<close> by an \<^verbatim>\<open>int\<close> (true division).\<close>

definition truediv :: "rat \<Rightarrow> int \<Rightarrow> exn + rat" where
  "truediv a b = (if b = 0 then Inl ZeroDivisionError else Inr (a / of_int b))"

text \<open>\<^verbatim>\<open>'%d' % n\<close> for a non-negative \<^verbatim>\<open>n\<close>: its decimal digits.\<close>

definition digit_char :: "nat \<Rightarrow> char" where
  "digit_char d = char_of (48 + d)"

fun str_nat :: "nat \<Rightarrow> string" where
  "str_nat n = (if n < 10 then [digit_char n] else str_nat (n div 10) @ [digit_char (n mod 10)])"

declare str_nat.simps [simp del]

section \<open>Averages\<close>

text \<open>
  \<^verbatim>\<open>
  def mean(data):
      if iter(data) is data:
          data = list(data)
      data_len = len(data)
      if data_len < 1:
          raise StatisticsError('mean requires at least one data point')
      return sum(data) / data_len
  \<close>
\<close>

definition mean :: "rat list \<Rightarrow> exn + rat" where
  "mean data =
     (let data_len = int (length data)
      in if data_len < 1 then Inl (StatisticsError ''mean requires at least one data point'')
         else truediv (sum_list data) data_len)"

text \<open>
  \<^verbatim>\<open>
  def median(data):
      data = sorted(data)
      data_len = len(data)
      if data_len == 0:
          raise StatisticsError('no median for empty data')
      if data_len % 2 == 1:
          return data[data_len // 2]
      if data_len % 2 == 0:
          i = data_len // 2
          return (data[i - 1] + data[i]) / 2
  \<close>
  A call that passes all three tests falls off the end and returns Python's
  \<^verbatim>\<open>None\<close>, which is \<^term>\<open>None\<close> here.
\<close>

definition median :: "rat list \<Rightarrow> exn + rat option" where
  "median data0 =
     (let data = sort data0; data_len = int (length data)
      in if data_len = 0 then Inl (StatisticsError ''no median for empty data'')
         else if data_len mod 2 = 1 then
           (case getitem data (data_len div 2) of Inl e \<Rightarrow> Inl e | Inr x \<Rightarrow> Inr (Some x))
         else if data_len mod 2 = 0 then
           (let i = data_len div 2
            in case getitem data (i - 1) of Inl e \<Rightarrow> Inl e
               | Inr a \<Rightarrow>
                  (case getitem data i of Inl e \<Rightarrow> Inl e
                   | Inr b \<Rightarrow>
                      (case truediv (a + b) 2 of Inl e \<Rightarrow> Inl e | Inr m \<Rightarrow> Inr (Some m))))
         else Inr None)"

section \<open>The frequency table\<close>

text \<open>
  \<^verbatim>\<open>collections.Counter\<close> is a dictionary that keeps its keys in the order of their
  first insertion; counting an element does \<^verbatim>\<open>self[elem] = self.get(elem, 0) + 1\<close>,
  which leaves an existing key in its place. Order matters here, so the dictionary is
  an association list. (Insertion order is the iteration order of a dictionary from
  Python 3.7 on; before that the order of the items, and so the order of entries with
  equal counts, is unspecified.)
\<close>

fun counter_add :: "('a \<times> nat) list \<Rightarrow> 'a \<Rightarrow> ('a \<times> nat) list" where
  "counter_add [] x = [(x, 1)]"
| "counter_add ((k, c) # kvs) x =
     (if k = x then (k, c + 1) # kvs else (k, c) # counter_add kvs x)"

definition Counter :: "'a list \<Rightarrow> ('a \<times> nat) list" where
  "Counter data = foldl counter_add [] data"

text \<open>
  \<^verbatim>\<open>most_common()\<close> is \<^verbatim>\<open>sorted(self.items(), key=itemgetter(1), reverse=True)\<close>:
  a stable sort by descending count, that is, a stable ascending sort by the negated
  count.
\<close>

definition most_common :: "('a \<times> nat) list \<Rightarrow> ('a \<times> nat) list" where
  "most_common items = sort_key (\<lambda>kv. - int (snd kv)) items"

text \<open>
  \<^verbatim>\<open>
  def _counts(data):
      table = collections.Counter(iter(data)).most_common()
      if not table:
          return table
      maxfreq = table[0][1]
      for i in range(1, len(table)):
          if table[i][1] != maxfreq:
              table = table[:i]
              break
      return table
  \<close>
  The loop is \<open>counts_loop\<close>, started at \<open>i = 1\<close>.
\<close>

function counts_loop :: "('a \<times> nat) list \<Rightarrow> nat \<Rightarrow> nat \<Rightarrow> exn + ('a \<times> nat) list" where
  "counts_loop table maxfreq i =
     (if i < length table then
        (case getitem table (int i) of Inl e \<Rightarrow> Inl e
         | Inr kv \<Rightarrow>
            if snd kv \<noteq> maxfreq then Inr (take i table)
            else counts_loop table maxfreq (Suc i))
      else Inr table)"
  by pat_completeness auto
termination
  by (relation "measure (\<lambda>(table, maxfreq, i). length table - i)") auto

declare counts_loop.simps [simp del]

definition counts :: "'a list \<Rightarrow> exn + ('a \<times> nat) list" where
  "counts data =
     (let table = most_common (Counter data)
      in if table = [] then Inr table
         else (case getitem table 0 of Inl e \<Rightarrow> Inl e
               | Inr kv \<Rightarrow> counts_loop table (snd kv) 1))"

text \<open>
  \<^verbatim>\<open>
  def mode(data):
      data_len = len(data)
      if data_len == 0:
          raise StatisticsError('no mode for empty data')
      table = _counts(data)
      table_len = len(table)
      if table_len != 1:
          raise StatisticsError(
              'no unique mode; found %d equally common values' % table_len
          )
      return table[0][0]
  \<close>
\<close>

definition mode :: "'a list \<Rightarrow> exn + 'a" where
  "mode data =
     (let data_len = length data
      in if data_len = 0 then Inl (StatisticsError ''no mode for empty data'')
         else (case counts data of Inl e \<Rightarrow> Inl e
               | Inr table \<Rightarrow>
                  (let table_len = length table
                   in if table_len \<noteq> 1 then
                        Inl (StatisticsError
                              (''no unique mode; found '' @ str_nat table_len @
                               '' equally common values''))
                      else (case getitem table 0 of Inl e \<Rightarrow> Inl e
                            | Inr kv \<Rightarrow> Inr (fst kv)))))"

section \<open>Measures of spread\<close>

text \<open>
  \<^verbatim>\<open>
  def _ss(data, data_mean=None):
      if data_mean is None:
          data_mean = mean(data)
      return sum((x - data_mean)**2 for x in data)
  \<close>
\<close>

definition ss :: "rat list \<Rightarrow> rat option \<Rightarrow> exn + rat" where
  "ss data data_mean =
     (case (case data_mean of None \<Rightarrow> mean data | Some m \<Rightarrow> Inr m) of
        Inl e \<Rightarrow> Inl e
      | Inr m \<Rightarrow> Inr (sum_list (map (\<lambda>x. (x - m)\<^sup>2) data)))"

text \<open>
  \<^verbatim>\<open>
  def variance(data, xbar=None):
      if iter(data) is data:
          data = list(data)
      data_len = len(data)
      if data_len < 2:
          raise StatisticsError('variance requires at least two data points')
      return _ss(data, xbar) / (data_len - 1)
  \<close>
\<close>

definition variance :: "rat list \<Rightarrow> rat option \<Rightarrow> exn + rat" where
  "variance data xbar =
     (let data_len = int (length data)
      in if data_len < 2 then
           Inl (StatisticsError ''variance requires at least two data points'')
         else (case ss data xbar of Inl e \<Rightarrow> Inl e | Inr s \<Rightarrow> truediv s (data_len - 1)))"

text \<open>
  \<^verbatim>\<open>
  def pvariance(data, mux=None):
      if iter(data) is data:
          data = list(data)
      data_len = len(data)
      if data_len < 1:
          raise StatisticsError('pvariance requires at least one data point')
      return _ss(data, mux) / data_len
  \<close>
\<close>

definition pvariance :: "rat list \<Rightarrow> rat option \<Rightarrow> exn + rat" where
  "pvariance data mux =
     (let data_len = int (length data)
      in if data_len < 1 then
           Inl (StatisticsError ''pvariance requires at least one data point'')
         else (case ss data mux of Inl e \<Rightarrow> Inl e | Inr s \<Rightarrow> truediv s data_len))"




section \<open>The mean of Decimal data\<close>











section \<open>Basic facts\<close>

lemma getitem_in_range: "i < length xs \<Longrightarrow> getitem xs (int i) = Inr (xs ! i)"
  by (simp add: getitem_def)

subsection \<open>Mean and median\<close>

lemma truediv_nonzero: "b \<noteq> 0 \<Longrightarrow> truediv a b = Inr (a / of_int b)"
  by (simp add: truediv_def)

lemma mean_nonempty: "data \<noteq> [] \<Longrightarrow> mean data = Inr (sum_list data / of_nat (length data))"
  by (simp add: mean_def truediv_def Let_def)

lemma mean_empty: "mean [] = Inl (StatisticsError ''mean requires at least one data point'')"
  by (simp add: mean_def)

text \<open>
  C1. For every non-empty collection, \<open>mean\<close> returns the sum of the elements divided
  by their number; on the empty collection it raises \<^verbatim>\<open>StatisticsError\<close>.
\<close>

theorem mean_spec:
  "(data \<noteq> [] \<longrightarrow> mean data = Inr (sum_list data / of_nat (length data))) \<and>
   mean [] = Inl (StatisticsError ''mean requires at least one data point'')"
  using mean_nonempty mean_empty by blast

theorem mean_spec_witness:
  "[1, 2, 3, 4, 4] \<noteq> ([] :: rat list) \<and> mean [1, 2, 3, 4, 4] = Inr (14 / 5)"
  using mean_spec [of "[1, 2, 3, 4, 4]"] by simp

lemma sort_unique: "sorted s \<Longrightarrow> mset s = mset data \<Longrightarrow> sort data = s"
  by (rule properties_for_sort)

lemma median_empty: "median [] = Inl (StatisticsError ''no median for empty data'')"
  by (simp add: median_def)

lemma median_odd:
  assumes "odd (length data)"
  shows "median data = Inr (Some (sort data ! (length data div 2)))"
proof -
  define s where "s = sort data"
  define n where "n = length data"
  have len: "length s = n" by (simp add: s_def n_def)
  have n: "int n \<noteq> 0" and m: "int n mod 2 = 1" and d: "int n div 2 = int (n div 2)"
    using assms unfolding n_def by presburger+
  have "n div 2 < length s" using n len by simp
  then have "getitem s (int (n div 2)) = Inr (s ! (n div 2))"
    by (rule getitem_in_range)
  moreover have "s \<noteq> []" using n len by auto
  ultimately have "median data = Inr (Some (s ! (n div 2)))"
    using m d len by (simp add: median_def Let_def s_def [symmetric])
  then show ?thesis by (simp add: s_def n_def)
qed

lemma median_even:
  assumes "data \<noteq> []" "even (length data)"
  shows "median data =
    Inr (Some ((sort data ! (length data div 2 - 1) + sort data ! (length data div 2)) / 2))"
proof -
  define s where "s = sort data"
  define n where "n = length data"
  have len: "length s = n" by (simp add: s_def n_def)
  have pos: "n \<noteq> 0" using assms(1) by (simp add: n_def)
  have n: "int n \<noteq> 0" and m: "int n mod 2 = 0" and m1: "int n mod 2 \<noteq> 1"
    and d: "int n div 2 = int (n div 2)" and d1: "int (n div 2) - 1 = int (n div 2 - 1)"
    using assms(2) pos unfolding n_def by presburger+
  have "n div 2 < length s" using pos len by simp
  then have g2: "getitem s (int (n div 2)) = Inr (s ! (n div 2))"
    by (rule getitem_in_range)
  have "n div 2 - 1 < length s" using pos len by simp
  then have g1: "getitem s (int (n div 2 - 1)) = Inr (s ! (n div 2 - 1))"
    by (rule getitem_in_range)
  have ne: "s \<noteq> []" using pos len by auto
  have "median data = Inr (Some ((s ! (n div 2 - 1) + s ! (n div 2)) / 2))"
    unfolding median_def Let_def s_def [symmetric] len d d1 g1 g2
    using ne pos m m1 by (simp add: truediv_def)
  then show ?thesis by (simp add: s_def n_def)
qed

text \<open>
  C2. \<open>median\<close> works on the ascending arrangement \<open>s\<close> of its input: for an odd
  count \<open>N\<close> it returns the element of \<open>s\<close> at index \<open>N div 2\<close>, for an even count
  the average of the elements at \<open>N div 2 - 1\<close> and \<open>N div 2\<close>, and on the empty
  collection it raises \<^verbatim>\<open>StatisticsError\<close>.
\<close>

theorem median_spec:
  "median [] = Inl (StatisticsError ''no median for empty data'') \<and>
   (sorted s \<and> mset s = mset data \<and> odd (length data) \<longrightarrow>
      median data = Inr (Some (s ! (length data div 2)))) \<and>
   (sorted s \<and> mset s = mset data \<and> data \<noteq> [] \<and> even (length data) \<longrightarrow>
      median data = Inr (Some ((s ! (length data div 2 - 1) + s ! (length data div 2)) / 2)))"
  using median_empty median_odd median_even sort_unique by blast

theorem median_spec_witness:
  "(sorted [1, 3, 5 :: rat] \<and> mset [1, 3, 5] = mset [5, 1, 3 :: rat] \<and> odd (length [5, 1, 3 :: rat])) \<and>
   median [5, 1, 3] = Inr (Some 3) \<and>
   (sorted [1, 3, 5, 7 :: rat] \<and> mset [1, 3, 5, 7] = mset [7, 1, 5, 3 :: rat] \<and>
      [7, 1, 5, 3 :: rat] \<noteq> [] \<and> even (length [7, 1, 5, 3 :: rat])) \<and>
   median [7, 1, 5, 3] = Inr (Some 4)"
  using median_spec [of "[1, 3, 5]" "[5, 1, 3]"] median_spec [of "[1, 3, 5, 7]" "[7, 1, 5, 3]"]
  by simp

subsection \<open>Variance and population variance\<close>

lemma ss_Some: "ss data (Some c) = Inr (\<Sum>x\<leftarrow>data. (x - c)\<^sup>2)"
  by (simp add: ss_def)

lemma ss_None:
  "data \<noteq> [] \<Longrightarrow>
   ss data None = Inr (\<Sum>x\<leftarrow>data. (x - sum_list data / of_nat (length data))\<^sup>2)"
  by (simp add: ss_def mean_nonempty)

lemma variance_short:
  "length data < 2 \<Longrightarrow>
   variance data xbar = Inl (StatisticsError ''variance requires at least two data points'')"
  by (simp add: variance_def)

lemma variance_ss:
  assumes "2 \<le> length data" "ss data xbar = Inr s"
  shows "variance data xbar = Inr (s / of_nat (length data - 1))"
proof -
  have a: "\<not> int (length data) < 2" and b: "int (length data) - 1 \<noteq> 0"
    using assms(1) by linarith+
  have c: "(of_int (int (length data) - 1) :: rat) = of_nat (length data - 1)"
    using assms(1) by (simp add: of_nat_diff)
  have "variance data xbar = truediv s (int (length data) - 1)"
    using a assms(2) by (simp add: variance_def)
  also have "\<dots> = Inr (s / of_int (int (length data) - 1))"
    using b by (rule truediv_nonzero)
  finally show ?thesis by (simp only: c)
qed

lemma pvariance_empty:
  "pvariance [] mux = Inl (StatisticsError ''pvariance requires at least one data point'')"
  by (simp add: pvariance_def)

lemma pvariance_ss:
  assumes "data \<noteq> []" "ss data mux = Inr s"
  shows "pvariance data mux = Inr (s / of_nat (length data))"
  using assms by (simp add: pvariance_def truediv_def)

text \<open>
  C5. With at least two data points, \<open>variance\<close> returns the sum of the squared
  deviations from the supplied central value, whatever that value is, divided by
  \<open>N - 1\<close>; without a supplied value the deviations are taken from the mean of the
  data; with fewer than two points it raises \<^verbatim>\<open>StatisticsError\<close>.
\<close>

theorem variance_spec:
  "(2 \<le> length data \<longrightarrow>
      variance data (Some xbar) =
        Inr ((\<Sum>x\<leftarrow>data. (x - xbar)\<^sup>2) / of_nat (length data - 1))) \<and>
   (2 \<le> length data \<longrightarrow>
      mean data = Inr (sum_list data / of_nat (length data)) \<and>
      variance data None =
        Inr ((\<Sum>x\<leftarrow>data. (x - sum_list data / of_nat (length data))\<^sup>2) /
             of_nat (length data - 1))) \<and>
   (length data < 2 \<longrightarrow>
      variance data c =
        Inl (StatisticsError ''variance requires at least two data points''))"
proof (intro conjI impI)
  assume n: "2 \<le> length data"
  then have ne: "data \<noteq> []" by auto
  show "variance data (Some xbar) =
        Inr ((\<Sum>x\<leftarrow>data. (x - xbar)\<^sup>2) / of_nat (length data - 1))"
    using n ss_Some by (rule variance_ss)
  show "mean data = Inr (sum_list data / of_nat (length data))"
    using ne by (rule mean_nonempty)
  show "variance data None =
        Inr ((\<Sum>x\<leftarrow>data. (x - sum_list data / of_nat (length data))\<^sup>2) /
             of_nat (length data - 1))"
    using n ss_None [OF ne] by (rule variance_ss)
next
  assume "length data < 2"
  then show "variance data c =
        Inl (StatisticsError ''variance requires at least two data points'')"
    by (rule variance_short)
qed

theorem variance_spec_witness:
  "2 \<le> length [1 / 6, 1 / 2, 5 / 3 :: rat] \<and>
   variance [1 / 6, 1 / 2, 5 / 3] (Some 1) = Inr (25 / 36) \<and>
   variance [1 / 6, 1 / 2, 5 / 3] None = Inr (67 / 108) \<and>
   length [5 :: rat] < 2 \<and>
   variance [5] (Some 5) = Inl (StatisticsError ''variance requires at least two data points'')"
  using variance_spec [of "[1 / 6, 1 / 2, 5 / 3]" 1 None]
    variance_spec [of "[5]" 0 "Some 5"]
  by (simp add: power2_eq_square)

text \<open>
  C6. On non-empty data \<open>pvariance\<close> returns the sum of the squared deviations from
  \<open>mu\<close> (from the mean of the data when \<open>mu\<close> is omitted) divided by \<open>N\<close>; it raises
  an error exactly when the data is empty, and that error is the
  \<^verbatim>\<open>StatisticsError\<close>. One data point is enough.
\<close>

theorem pvariance_spec:
  "(data \<noteq> [] \<longrightarrow>
      pvariance data (Some mu) = Inr ((\<Sum>x\<leftarrow>data. (x - mu)\<^sup>2) / of_nat (length data))) \<and>
   (data \<noteq> [] \<longrightarrow>
      mean data = Inr (sum_list data / of_nat (length data)) \<and>
      pvariance data None =
        Inr ((\<Sum>x\<leftarrow>data. (x - sum_list data / of_nat (length data))\<^sup>2) /
             of_nat (length data))) \<and>
   ((\<exists>e. pvariance data c = Inl e) \<longleftrightarrow> data = []) \<and>
   pvariance [] c = Inl (StatisticsError ''pvariance requires at least one data point'') \<and>
   pvariance [x] None = Inr 0"
proof (intro conjI impI)
  assume ne: "data \<noteq> []"
  show "pvariance data (Some mu) = Inr ((\<Sum>x\<leftarrow>data. (x - mu)\<^sup>2) / of_nat (length data))"
    using ne ss_Some by (rule pvariance_ss)
  show "mean data = Inr (sum_list data / of_nat (length data))"
    using ne by (rule mean_nonempty)
  show "pvariance data None =
        Inr ((\<Sum>x\<leftarrow>data. (x - sum_list data / of_nat (length data))\<^sup>2) /
             of_nat (length data))"
    using ne ss_None [OF ne] by (rule pvariance_ss)
next
  show "(\<exists>e. pvariance data c = Inl e) \<longleftrightarrow> data = []"
  proof
    assume "\<exists>e. pvariance data c = Inl e"
    then obtain e where e: "pvariance data c = Inl e" ..
    show "data = []"
    proof (rule ccontr)
      assume ne: "data \<noteq> []"
      have "\<exists>s. ss data c = Inr s"
        using ne by (cases c) (simp_all add: ss_Some ss_None)
      then obtain s where "ss data c = Inr s" ..
      with ne have "pvariance data c = Inr (s / of_nat (length data))"
        by (rule pvariance_ss)
      with e show False by simp
    qed
  next
    assume "data = []"
    then show "\<exists>e. pvariance data c = Inl e" by (simp add: pvariance_empty)
  qed
next
  show "pvariance [] c = Inl (StatisticsError ''pvariance requires at least one data point'')"
    by (rule pvariance_empty)
next
  have "ss [x] None = Inr 0" by (simp add: ss_None)
  then show "pvariance [x] None = Inr 0" by (simp add: pvariance_ss)
qed

theorem pvariance_spec_witness:
  "[1 / 4, 5 / 4, 1 / 2 :: rat] \<noteq> [] \<and>
   pvariance [1 / 4, 5 / 4, 1 / 2] (Some 1) = Inr (7 / 24) \<and>
   pvariance [1 / 4, 5 / 4, 1 / 2] None = Inr (13 / 72)"
  using pvariance_spec [of "[1 / 4, 5 / 4, 1 / 2]" 1 None 0]
  by (simp add: power2_eq_square)

lemma sum_sq_nonneg: "0 \<le> (\<Sum>x\<leftarrow>data. (x - (c::rat))\<^sup>2)"
  by (rule sum_list_nonneg) auto

lemma ss_total:
  assumes "data \<noteq> []"
  shows "\<exists>s. ss data c = Inr s \<and> 0 \<le> s"
proof (cases c)
  case None
  then show ?thesis using assms by (simp add: ss_None sum_sq_nonneg)
next
  case (Some m)
  then show ?thesis by (simp add: ss_Some sum_sq_nonneg)
qed

text \<open>
  C9. With at least two data points \<open>variance\<close> returns a non-negative number, and
  with at least one \<open>pvariance\<close> does, whatever central value is supplied or omitted.
\<close>

theorem variance_pvariance_nonneg:
  "(2 \<le> length data \<longrightarrow> (\<exists>v. variance data c = Inr v \<and> 0 \<le> v)) \<and>
   (1 \<le> length data \<longrightarrow> (\<exists>p. pvariance data c = Inr p \<and> 0 \<le> p))"
proof (intro conjI impI)
  assume n: "2 \<le> length data"
  then have "data \<noteq> []" by auto
  then obtain s where s: "ss data c = Inr s" "0 \<le> s" using ss_total by blast
  have "variance data c = Inr (s / of_nat (length data - 1))"
    using n s(1) by (rule variance_ss)
  moreover have "0 \<le> s / of_nat (length data - 1)" using s(2) by simp
  ultimately show "\<exists>v. variance data c = Inr v \<and> 0 \<le> v" by blast
next
  assume "1 \<le> length data"
  then have ne: "data \<noteq> []" by auto
  then obtain s where s: "ss data c = Inr s" "0 \<le> s" using ss_total by blast
  have "pvariance data c = Inr (s / of_nat (length data))"
    using ne s(1) by (rule pvariance_ss)
  moreover have "0 \<le> s / of_nat (length data)" using s(2) by simp
  ultimately show "\<exists>p. pvariance data c = Inr p \<and> 0 \<le> p" by blast
qed

theorem variance_pvariance_nonneg_witness:
  "2 \<le> length [3, 1 :: rat] \<and> (\<exists>v. variance [3, 1] None = Inr v \<and> 0 \<le> v) \<and>
   1 \<le> length [3 :: rat] \<and> (\<exists>p. pvariance [3] (Some 7) = Inr p \<and> 0 \<le> p)"
  using variance_pvariance_nonneg [of "[3, 1]" None]
    variance_pvariance_nonneg [of "[3]" "Some 7"]
  by simp

text \<open>
  C8. For data with more than one element, the population variance is at most the
  sample variance (both taken about the mean of the data).
\<close>

theorem pvariance_le_variance:
  "1 < length data \<Longrightarrow>
   \<exists>p v. pvariance data None = Inr p \<and> variance data None = Inr v \<and> p \<le> v"
proof -
  assume n: "1 < length data"
  then have ne: "data \<noteq> []" by auto
  then obtain s where s: "ss data None = Inr s" "0 \<le> s" using ss_total by blast
  have p: "pvariance data None = Inr (s / of_nat (length data))"
    using ne s(1) by (rule pvariance_ss)
  have v: "variance data None = Inr (s / of_nat (length data - 1))"
    using n s(1) by (intro variance_ss) auto
  have pos: "(0::rat) < of_nat (length data - 1)" using n by simp
  have le: "(of_nat (length data - 1) :: rat) \<le> of_nat (length data)"
    unfolding of_nat_le_iff by simp
  have "s / of_nat (length data) \<le> s / of_nat (length data - 1)"
    using s(2) order_refl pos le by (rule frac_le)
  with p v show ?thesis by blast
qed

theorem pvariance_le_variance_witness:
  "1 < length [1 / 6, 1 / 2, 5 / 3 :: rat] \<and>
   (\<exists>p v. pvariance [1 / 6, 1 / 2, 5 / 3] None = Inr p \<and>
          variance [1 / 6, 1 / 2, 5 / 3] None = Inr v \<and> p \<le> v)"
  using pvariance_le_variance [of "[1 / 6, 1 / 2, 5 / 3]"] by simp

subsection \<open>Independence of the order of the data\<close>






subsection \<open>The order of Decimal data\<close>


subsection \<open>The frequency table\<close>

lemma counter_add_map:
  "distinct ks \<Longrightarrow>
   counter_add (map (\<lambda>v. (v, f v)) ks) x =
     (if x \<in> set ks then map (\<lambda>v. (v, if v = x then f v + 1 else f v)) ks
      else map (\<lambda>v. (v, f v)) ks @ [(x, 1)])"
  by (induction ks) auto

lemma first_seen_snoc:
  "rev (remdups (rev (xs @ [x]))) =
     (if x \<in> set xs then rev (remdups (rev xs)) else rev (remdups (rev xs)) @ [x])"
  by simp

lemma Counter_snoc: "Counter (xs @ [x]) = counter_add (Counter xs) x"
  by (simp add: Counter_def)

lemma Counter_eq:
  "Counter data = map (\<lambda>v. (v, count_list data v)) (rev (remdups (rev data)))"
proof (induction data rule: rev_induct)
  case Nil
  show ?case by (simp add: Counter_def)
next
  case (snoc x xs)
  let ?F = "rev (remdups (rev xs))"
  have d: "distinct ?F" by simp
  have s: "set ?F = set xs" by simp
  have "Counter (xs @ [x]) = counter_add (map (\<lambda>v. (v, count_list xs v)) ?F) x"
    by (simp only: Counter_snoc snoc.IH)
  also have "\<dots> =
     (if x \<in> set xs then map (\<lambda>v. (v, if v = x then count_list xs v + 1 else count_list xs v)) ?F
      else map (\<lambda>v. (v, count_list xs v)) ?F @ [(x, 1)])"
    by (simp only: counter_add_map [OF d] s)
  also have "\<dots> = map (\<lambda>v. (v, count_list (xs @ [x]) v)) (rev (remdups (rev (xs @ [x]))))"
  proof (cases "x \<in> set xs")
    case True
    then show ?thesis by (simp only: first_seen_snoc) auto
  next
    case False
    then show ?thesis by (simp only: first_seen_snoc) auto
  qed
  finally show ?case .
qed

lemma counts_loop_eq:
  "i \<le> length table \<Longrightarrow>
   counts_loop table m i = Inr (take i table @ takeWhile (\<lambda>kv. snd kv = m) (drop i table))"
proof (induction table m i rule: counts_loop.induct)
  case (1 table m i)
  show ?case
  proof (cases "i < length table")
    case False
    with "1.prems" have "i = length table" by simp
    then show ?thesis by (simp add: counts_loop.simps [of table m "length table"])
  next
    case True
    then have g: "getitem table (int i) = Inr (table ! i)" by (rule getitem_in_range)
    have dr: "drop i table = table ! i # drop (Suc i) table"
      using True by (simp add: Cons_nth_drop_Suc)
    show ?thesis
    proof (cases "snd (table ! i) = m")
      case False
      then show ?thesis using True g dr by (simp add: counts_loop.simps [of table m i])
    next
      case eq: True
      have "counts_loop table m i = counts_loop table m (Suc i)"
        using True g eq by (simp add: counts_loop.simps [of table m i])
      also have "\<dots> =
          Inr (take (Suc i) table @ takeWhile (\<lambda>kv. snd kv = m) (drop (Suc i) table))"
        using True g eq by (intro "1.IH") auto
      also have "\<dots> = Inr (take i table @ takeWhile (\<lambda>kv. snd kv = m) (drop i table))"
        using True eq dr by (simp add: take_Suc_conv_app_nth)
      finally show ?thesis .
    qed
  qed
qed

lemma takeWhile_sorted_filter:
  "sorted (map f ys) \<Longrightarrow> \<forall>y\<in>set ys. k \<le> f y \<Longrightarrow>
   takeWhile (\<lambda>y. f y = k) ys = filter (\<lambda>y. f y = k) ys"
proof (induction ys)
  case Nil
  show ?case by simp
next
  case (Cons y ys)
  show ?case
  proof (cases "f y = k")
    case True
    then show ?thesis using Cons by simp
  next
    case False
    then have "k < f y" using Cons.prems(2) by (simp add: less_le)
    then have "\<forall>z\<in>set ys. f z \<noteq> k" using Cons.prems(1) by auto
    then have "filter (\<lambda>y. f y = k) ys = []" by (simp add: filter_empty_conv)
    then show ?thesis using False by simp
  qed
qed

lemma sort_key_head_least:
  assumes "sort_key f xs = y # ys"
  shows "\<forall>z\<in>set xs. f y \<le> f z"
proof -
  have "sorted (map f (y # ys))" using sorted_sort_key [of f xs] assms by simp
  then have "\<forall>z\<in>set (y # ys). f y \<le> f z" by auto
  moreover have "set (y # ys) = set xs" using set_sort [of f xs] assms by simp
  ultimately show ?thesis by blast
qed

text \<open>
  On a non-empty counter the table keeps the entries with the highest count, in the
  order of the counter.
\<close>

lemma counts_filter:
  assumes "Counter data \<noteq> []"
  shows "\<exists>m. counts data = Inr (filter (\<lambda>kv. snd kv = m) (Counter data)) \<and>
             m \<in> snd ` set (Counter data) \<and> (\<forall>kv\<in>set (Counter data). snd kv \<le> m)"
proof -
  define C where "C = Counter data"
  define f where "f = (\<lambda>kv :: 'a \<times> nat. - int (snd kv))"
  define table where "table = sort_key f C"
  have "length table = length C" by (simp add: table_def)
  then have ne: "table \<noteq> []" using assms by (auto simp: C_def)
  then obtain y ys where tab: "table = y # ys" by (cases table) auto
  define m where "m = snd y"
  have least: "\<forall>z\<in>set C. f y \<le> f z"
    using tab unfolding table_def by (intro sort_key_head_least) simp
  have key: "(snd kv = m) = (f kv = f y)" for kv by (auto simp: f_def m_def)
  have g: "getitem table 0 = Inr y" using getitem_in_range [of 0 table] ne tab by simp
  have "counts data = counts_loop table m 1"
    using ne g by (simp add: counts_def most_common_def table_def C_def f_def m_def)
  also have "\<dots> = Inr (take 1 table @ takeWhile (\<lambda>kv. snd kv = m) (drop 1 table))"
    using ne by (intro counts_loop_eq) (cases table, auto)
  also have "take 1 table @ takeWhile (\<lambda>kv. snd kv = m) (drop 1 table) =
             takeWhile (\<lambda>kv. snd kv = m) table"
    by (simp add: tab m_def)
  also have "\<dots> = takeWhile (\<lambda>kv. f kv = f y) table" by (simp only: key)
  also have "\<dots> = filter (\<lambda>kv. f kv = f y) table"
  proof (rule takeWhile_sorted_filter)
    show "sorted (map f table)" by (simp add: table_def)
    show "\<forall>z\<in>set table. f y \<le> f z" using least by (simp add: table_def)
  qed
  also have "\<dots> = filter (\<lambda>kv. f kv = f y) C"
    unfolding table_def by (rule sort_key_stable)
  also have "\<dots> = filter (\<lambda>kv. snd kv = m) C" by (simp only: key)
  finally have "counts data = Inr (filter (\<lambda>kv. snd kv = m) (Counter data))"
    by (simp only: C_def)
  moreover have "y \<in> set table" by (simp add: tab)
  then have "y \<in> set C" by (simp add: table_def)
  then have "m \<in> snd ` set (Counter data)" by (auto simp: m_def C_def)
  moreover have "\<forall>kv\<in>set (Counter data). snd kv \<le> m"
    using least by (auto simp: f_def m_def C_def)
  ultimately show ?thesis by blast
qed

lemma counts_eq:
  "counts data =
     Inr (map (\<lambda>v. (v, count_list data v))
            (filter (\<lambda>v. \<forall>w\<in>set data. count_list data w \<le> count_list data v)
               (rev (remdups (rev data)))))"
proof (cases "data = []")
  case True
  then show ?thesis by (simp add: counts_def most_common_def Counter_def)
next
  case False
  define F where "F = rev (remdups (rev data))"
  define g where "g = (\<lambda>v. (v, count_list data v))"
  have C: "Counter data = map g F" by (simp only: Counter_eq F_def g_def)
  have setF: "set F = set data" by (simp add: F_def)
  have "F \<noteq> []" using False setF by auto
  then have "Counter data \<noteq> []" by (simp add: C)
  then obtain m where res: "counts data = Inr (filter (\<lambda>kv. snd kv = m) (Counter data))"
    and att: "m \<in> snd ` set (Counter data)"
    and top: "\<forall>kv\<in>set (Counter data). snd kv \<le> m"
    using counts_filter by blast
  from att obtain w0 where w0: "w0 \<in> set data" "count_list data w0 = m"
    by (auto simp: C g_def setF)
  from top have top': "\<forall>v\<in>set data. count_list data v \<le> m"
    by (auto simp: C g_def setF)
  have "filter (\<lambda>kv. snd kv = m) (Counter data) =
        map g (filter (\<lambda>v. count_list data v = m) F)"
    by (simp add: C filter_map comp_def g_def)
  also have "filter (\<lambda>v. count_list data v = m) F =
        filter (\<lambda>v. \<forall>w\<in>set data. count_list data w \<le> count_list data v) F"
  proof (rule filter_cong [OF refl])
    fix v assume "v \<in> set F"
    then have v: "v \<in> set data" by (simp add: setF)
    show "(count_list data v = m) =
          (\<forall>w\<in>set data. count_list data w \<le> count_list data v)"
    proof
      assume "count_list data v = m"
      then show "\<forall>w\<in>set data. count_list data w \<le> count_list data v"
        using top' by simp
    next
      assume "\<forall>w\<in>set data. count_list data w \<le> count_list data v"
      then have "m \<le> count_list data v" using w0 by auto
      moreover have "count_list data v \<le> m" using top' v by blast
      ultimately show "count_list data v = m" by simp
    qed
  qed
  finally show ?thesis using res by (simp only: F_def g_def)
qed

lemma sorted_wrt_all: "(\<forall>x\<in>set xs. \<forall>y\<in>set xs. P x y) \<Longrightarrow> sorted_wrt P xs"
  by (induction xs) auto

text \<open>
  C4. The table of \<open>_counts\<close> lists exactly the values whose count is the maximum
  count, each with its count, in the order of their first appearance in the input;
  its counts are in descending order; on the empty input it is empty.
\<close>

theorem counts_spec:
  "counts (data :: 'a list) =
     Inr (map (\<lambda>v. (v, count_list data v))
            (filter (\<lambda>v. \<forall>w\<in>set data. count_list data w \<le> count_list data v)
               (rev (remdups (rev data))))) \<and>
   (\<exists>t. counts data = Inr t \<and> sorted_wrt (\<ge>) (map snd t)) \<and>
   counts ([] :: 'a list) = Inr []"
proof (intro conjI)
  show "counts data =
     Inr (map (\<lambda>v. (v, count_list data v))
            (filter (\<lambda>v. \<forall>w\<in>set data. count_list data w \<le> count_list data v)
               (rev (remdups (rev data)))))"
    by (rule counts_eq)
  have "sorted_wrt (\<ge>) (map snd (map (\<lambda>v. (v, count_list data v))
            (filter (\<lambda>v. \<forall>w\<in>set data. count_list data w \<le> count_list data v)
               (rev (remdups (rev data))))))"
    by (rule sorted_wrt_all) auto
  then show "\<exists>t. counts data = Inr t \<and> sorted_wrt (\<ge>) (map snd t)"
    using counts_eq [of data] by blast
  show "counts ([] :: 'a list) = Inr []"
    by (simp add: counts_eq)
qed

theorem counts_spec_witness:
  "counts [2, 1, 2, 1, 3 :: int] = Inr [(2, 2), (1, 2)]"
  using counts_spec [of "[2, 1, 2, 1, 3 :: int]"] by simp

subsection \<open>The mode\<close>

lemma mode_empty: "mode [] = Inl (StatisticsError ''no mode for empty data'')"
  by (simp add: mode_def)

lemma leaders_card:
  "length (filter P (rev (remdups (rev data)))) = card {v \<in> set data. P v}"
proof -
  have "length (filter P (rev (remdups (rev data)))) =
        card ({x. P x} \<inter> set (rev (remdups (rev data))))"
    by (rule distinct_length_filter) simp
  also have "{x. P x} \<inter> set (rev (remdups (rev data))) = {v \<in> set data. P v}"
    by auto
  finally show ?thesis .
qed

lemma leader_exists:
  assumes "data \<noteq> []"
  shows "\<exists>v\<in>set data. \<forall>w\<in>set data. count_list data w \<le> count_list data v"
proof -
  define S where "S = count_list data ` set data"
  have fin: "finite S" and ne: "S \<noteq> {}" using assms by (simp_all add: S_def)
  have "Max S \<in> S" using fin ne by (rule Max_in)
  then obtain v where v: "v \<in> set data" "count_list data v = Max S" by (auto simp: S_def)
  have "\<forall>w\<in>set data. count_list data w \<le> Max S"
    using fin by (auto simp: S_def intro: Max_ge)
  then have "\<forall>w\<in>set data. count_list data w \<le> count_list data v"
    by (simp only: v(2))
  with v(1) show ?thesis by (rule rev_bexI)
qed

lemma mode_nonempty:
  assumes "data \<noteq> []"
  defines "L \<equiv> filter (\<lambda>v. \<forall>w\<in>set data. count_list data w \<le> count_list data v)
                  (rev (remdups (rev data)))"
  shows "mode data =
    (if length L \<noteq> 1 then
       Inl (StatisticsError
             (''no unique mode; found '' @ str_nat (length L) @ '' equally common values''))
     else Inr (hd L))"
proof -
  have c: "counts data = Inr (map (\<lambda>v. (v, count_list data v)) L)"
    unfolding L_def by (rule counts_eq)
  show ?thesis
  proof (cases "length L = 1")
    case False
    then show ?thesis using assms(1) c by (simp add: mode_def)
  next
    case True
    then obtain v where L: "L = [v]" by (cases L) auto
    have "getitem (map (\<lambda>v. (v, count_list data v)) L) 0 = Inr (v, count_list data v)"
      using getitem_in_range [of 0 "map (\<lambda>v. (v, count_list data v)) L"] by (simp add: L)
    then show ?thesis using assms(1) c True by (simp add: mode_def L)
  qed
qed

text \<open>
  C3. \<open>mode\<close> raises an error exactly when the data is empty or more than one value
  has the highest frequency, and the error is the \<^verbatim>\<open>StatisticsError\<close>, whose message
  in the second case reports the number of tied values; otherwise it returns the one
  value whose count is strictly higher than the count of every other value.
\<close>

theorem mode_spec:
  "((\<exists>e. mode data = Inl e) \<longleftrightarrow>
      data = [] \<or>
      1 < card {v \<in> set data. \<forall>w\<in>set data. count_list data w \<le> count_list data v}) \<and>
   mode ([] :: 'a list) = Inl (StatisticsError ''no mode for empty data'') \<and>
   (1 < card {v \<in> set data. \<forall>w\<in>set data. count_list data w \<le> count_list data v} \<longrightarrow>
      mode (data :: 'a list) =
        Inl (StatisticsError
              (''no unique mode; found '' @
               str_nat (card {v \<in> set data.
                               \<forall>w\<in>set data. count_list data w \<le> count_list data v}) @
               '' equally common values''))) \<and>
   (data \<noteq> [] \<and>
    \<not> 1 < card {v \<in> set data. \<forall>w\<in>set data. count_list data w \<le> count_list data v} \<longrightarrow>
      (\<exists>v. mode data = Inr v \<and> v \<in> set data \<and>
           (\<forall>w\<in>set data. w \<noteq> v \<longrightarrow> count_list data w < count_list data v)))"
proof -
  define P where "P = (\<lambda>v. \<forall>w\<in>set data. count_list data w \<le> count_list data v)"
  define L where "L = filter P (rev (remdups (rev data)))"
  define T where "T = {v \<in> set data. P v}"
  have card: "length L = card T" unfolding L_def T_def by (rule leaders_card)
  have setL: "set L = T" by (auto simp: L_def T_def)
  have m: "mode data =
    (if length L \<noteq> 1 then
       Inl (StatisticsError
             (''no unique mode; found '' @ str_nat (length L) @ '' equally common values''))
     else Inr (hd L))" if "data \<noteq> []"
    using mode_nonempty [OF that] by (simp only: L_def P_def)
  have tie: "mode data =
      Inl (StatisticsError
            (''no unique mode; found '' @ str_nat (card T) @ '' equally common values''))"
    if "1 < card T"
  proof -
    have "data \<noteq> []" using that by (auto simp: T_def)
    then show ?thesis using m that card by simp
  qed
  have uniq: "\<exists>v. mode data = Inr v \<and> v \<in> set data \<and>
           (\<forall>w\<in>set data. w \<noteq> v \<longrightarrow> count_list data w < count_list data v)"
    if ne: "data \<noteq> []" and one: "\<not> 1 < card T"
  proof -
    obtain u where "u \<in> set data" "P u" using leader_exists [OF ne] by (auto simp: P_def)
    then have "u \<in> set L" by (simp add: setL T_def)
    then have "L \<noteq> []" by auto
    then have "length L = 1" using one card by (cases L) auto
    then obtain v where Lv: "L = [v]" by (cases L) auto
    have mv: "mode data = Inr v" using m [OF ne] by (simp add: Lv)
    have "v \<in> set L" by (simp add: Lv)
    then have "v \<in> T" by (simp only: setL)
    then have vd: "v \<in> set data" and Pv: "P v" by (auto simp: T_def)
    have "count_list data w < count_list data v" if w: "w \<in> set data" "w \<noteq> v" for w
    proof (rule ccontr)
      assume "\<not> count_list data w < count_list data v"
      moreover have "count_list data w \<le> count_list data v" using Pv w(1) by (simp add: P_def)
      ultimately have eq: "count_list data w = count_list data v" by simp
      have "P w" unfolding P_def using Pv eq by (simp add: P_def)
      then have "w \<in> T" using w(1) by (simp add: T_def)
      then have "w \<in> set L" by (simp add: setL)
      then show False using w(2) by (simp add: Lv)
    qed
    with mv vd show ?thesis by blast
  qed
  have iff: "(\<exists>e. mode data = Inl e) \<longleftrightarrow> data = [] \<or> 1 < card T"
  proof (cases "data = []")
    case True
    then show ?thesis by (simp add: mode_empty)
  next
    case ne: False
    show ?thesis
    proof (cases "1 < card T")
      case True
      then show ?thesis using tie by simp
    next
      case False
      then obtain v where "mode data = Inr v" using uniq [OF ne] by blast
      then show ?thesis using ne False by simp
    qed
  qed
  show ?thesis
    using iff mode_empty tie uniq unfolding T_def P_def by blast
qed

theorem mode_spec_witness:
  "1 < card {v \<in> set [1, 2, 3 :: int].
             \<forall>w\<in>set [1, 2, 3 :: int]. count_list [1, 2, 3] w \<le> count_list [1, 2, 3] v} \<and>
   mode [1, 2, 3 :: int] =
     Inl (StatisticsError ''no unique mode; found 3 equally common values'') \<and>
   [1, 1, 2, 3, 3, 3, 3, 4 :: int] \<noteq> [] \<and>
   \<not> 1 < card {v \<in> set [1, 1, 2, 3, 3, 3, 3, 4 :: int].
               \<forall>w\<in>set [1, 1, 2, 3, 3, 3, 3, 4 :: int].
                 count_list [1, 1, 2, 3, 3, 3, 3, 4] w \<le> count_list [1, 1, 2, 3, 3, 3, 3, 4] v} \<and>
   (\<exists>v. mode [1, 1, 2, 3, 3, 3, 3, 4 :: int] = Inr v \<and> v \<in> set [1, 1, 2, 3, 3, 3, 3, 4] \<and>
        (\<forall>w\<in>set [1, 1, 2, 3, 3, 3, 3, 4 :: int]. w \<noteq> v \<longrightarrow>
           count_list [1, 1, 2, 3, 3, 3, 3, 4] w < count_list [1, 1, 2, 3, 3, 3, 3, 4] v))"
proof -
  have c3: "card {v \<in> set [1, 2, 3 :: int].
             \<forall>w\<in>set [1, 2, 3 :: int]. count_list [1, 2, 3] w \<le> count_list [1, 2, 3] v} = 3"
    by code_simp
  have s3: "str_nat 3 = ''3''" by code_simp
  have c1: "card {v \<in> set [1, 1, 2, 3, 3, 3, 3, 4 :: int].
               \<forall>w\<in>set [1, 1, 2, 3, 3, 3, 3, 4 :: int].
                 count_list [1, 1, 2, 3, 3, 3, 3, 4] w \<le> count_list [1, 1, 2, 3, 3, 3, 3, 4] v} = 1"
    by code_simp
  have ne: "[1, 1, 2, 3, 3, 3, 3, 4 :: int] \<noteq> []" by simp
  have a: "mode [1, 2, 3 :: int] =
     Inl (StatisticsError ''no unique mode; found 3 equally common values'')"
    using mode_spec [of "[1, 2, 3 :: int]"] unfolding c3 s3 by simp
  have b: "\<exists>v. mode [1, 1, 2, 3, 3, 3, 3, 4 :: int] = Inr v \<and> v \<in> set [1, 1, 2, 3, 3, 3, 3, 4] \<and>
        (\<forall>w\<in>set [1, 1, 2, 3, 3, 3, 3, 4 :: int]. w \<noteq> v \<longrightarrow>
           count_list [1, 1, 2, 3, 3, 3, 3, 4] w < count_list [1, 1, 2, 3, 3, 3, 3, 4] v)"
    using mode_spec [of "[1, 1, 2, 3, 3, 3, 3, 4 :: int]"] ne unfolding c1 by simp
  show ?thesis using a b ne unfolding c3 c1 by simp
qed

subsection \<open>Standard deviations\<close>










end
